theory Spec2Isabelle
  imports Main
begin

section \<open>Text as Python sees it\<close>

text \<open>
  A Python \<open>str\<close> is a sequence of Unicode code points, so text is a list of code
  points here (an Isabelle \<open>char\<close> is a byte and cannot hold the CJK characters the
  scraper works on). \<open>lit\<close> reads an ASCII literal as such a text.
\<close>

type_synonym pystr = "nat list"

definition lit :: "string \<Rightarrow> pystr" where
  "lit s = map of_char s"

text \<open>
  \<open>isspace\<close> is the whitespace test shared by the regular-expression class \<open>\s\<close>
  and by \<open>str.strip()\<close> on a \<open>str\<close>: the code points Python calls whitespace.
\<close>

definition isspace :: "nat \<Rightarrow> bool" where
  "isspace c \<longleftrightarrow>
     (0x09 \<le> c \<and> c \<le> 0x0D) \<or> (0x1C \<le> c \<and> c \<le> 0x20) \<or> c = 0x85 \<or> c = 0xA0 \<or>
     c = 0x1680 \<or> (0x2000 \<le> c \<and> c \<le> 0x200A) \<or> c = 0x2028 \<or> c = 0x2029 \<or>
     c = 0x202F \<or> c = 0x205F \<or> c = 0x3000"

text \<open>
  The class \<open>\w\<close> on a \<open>str\<close> pattern is "alphanumeric in the Unicode database, or
  underscore". The database is not part of the program: it is the parameter \<open>alnum\<close>
  of everything below. \<open>ascii_alnum\<close> is the table restricted to ASCII, where it is
  the digits and the unaccented letters; it is the instance used to evaluate the
  functions on ASCII-only inputs.
\<close>

definition isword :: "(nat \<Rightarrow> bool) \<Rightarrow> nat \<Rightarrow> bool" where
  "isword alnum c \<longleftrightarrow> alnum c \<or> c = 0x5F"

definition ascii_alnum :: "nat \<Rightarrow> bool" where
  "ascii_alnum c \<longleftrightarrow>
     (0x30 \<le> c \<and> c \<le> 0x39) \<or> (0x41 \<le> c \<and> c \<le> 0x5A) \<or> (0x61 \<le> c \<and> c \<le> 0x7A)"

section \<open>The sanitizer: \<open>PTTScraper._clean_text\<close>\<close>

text \<open>
  \<^verbatim>\<open>text = re.sub(r'\s+', ' ', text)\<close>: scanning from the left, every maximal run of
  whitespace is replaced by one ASCII space; every other character is copied.
\<close>

function sub_ws :: "pystr \<Rightarrow> pystr" where
  "sub_ws [] = []"
| "sub_ws (c # cs) =
     (if isspace c then 0x20 # sub_ws (dropWhile isspace cs) else c # sub_ws cs)"
  by pat_completeness auto
termination
  by (relation "measure length") (auto simp: less_Suc_eq_le length_dropWhile_le)

text \<open>
  \<^verbatim>\<open>text = re.sub(r'[^\w\s\u4e00-\u9fff.,!?....]', '', text)\<close>, where the four
  dots stand for the full-width comma U+FF0C, the ideographic full stop U+3002, the
  full-width exclamation mark U+FF01 and the full-width question mark U+FF1F: a
  character is kept when it is in the bracket's list (\<open>\w\<close>, \<open>\s\<close>, the range
  U+4E00 to U+9FFF, one of the eight punctuation marks) and deleted otherwise.
\<close>

definition ispunct :: "nat \<Rightarrow> bool" where
  "ispunct c \<longleftrightarrow> c \<in> {0x2E, 0x2C, 0x21, 0x3F, 0xFF0C, 0x3002, 0xFF01, 0xFF1F}"

definition iscjk :: "nat \<Rightarrow> bool" where
  "iscjk c \<longleftrightarrow> 0x4E00 \<le> c \<and> c \<le> 0x9FFF"

definition allowed :: "(nat \<Rightarrow> bool) \<Rightarrow> nat \<Rightarrow> bool" where
  "allowed alnum c \<longleftrightarrow> isword alnum c \<or> isspace c \<or> iscjk c \<or> ispunct c"

definition sub_special :: "(nat \<Rightarrow> bool) \<Rightarrow> pystr \<Rightarrow> pystr" where
  "sub_special alnum t = filter (allowed alnum) t"

text \<open>\<^verbatim>\<open>str.strip()\<close> drops the whitespace at both ends.\<close>

definition strip :: "pystr \<Rightarrow> pystr" where
  "strip t = rev (dropWhile isspace (rev (dropWhile isspace t)))"

definition clean_text :: "(nat \<Rightarrow> bool) \<Rightarrow> pystr \<Rightarrow> pystr" where
  "clean_text alnum t = strip (sub_special alnum (sub_ws t))"

section \<open>Parsed markup\<close>

text \<open>
  The scraper reads pages through BeautifulSoup. A parsed page is a tree of text nodes
  and elements; of an element the model keeps what the scraper looks at: the tag name,
  the values of the \<open>class\<close> attribute, the \<open>id\<close> and the \<open>href\<close> (absent when the
  markup has none), and the children in document order.
\<close>

datatype node =
    Text pystr
  | Elem string "string list" "string option" "pystr option" "node list"

text \<open>The nodes below a node, in document order (the node itself is not among them).\<close>

fun descendants :: "node \<Rightarrow> node list" where
  "descendants (Text t) = []"
| "descendants (Elem nm cls i h ks) = concat (map (\<lambda>k. k # descendants k) ks)"

text \<open>\<^verbatim>\<open>tag.find_all(...)\<close> and \<^verbatim>\<open>tag.find(...)\<close>: all matches, and the first one or \<open>None\<close>.\<close>

definition find_all :: "(node \<Rightarrow> bool) \<Rightarrow> node \<Rightarrow> node list" where
  "find_all p n = filter p (descendants n)"

definition find_tag :: "(node \<Rightarrow> bool) \<Rightarrow> node \<Rightarrow> node option" where
  "find_tag p n = (case find_all p n of [] \<Rightarrow> None | x # xs \<Rightarrow> Some x)"

fun named :: "string \<Rightarrow> node \<Rightarrow> bool" where
  "named nm (Text t) = False"
| "named nm (Elem nm' cls i h ks) = (nm' = nm)"

fun with_class :: "string \<Rightarrow> string \<Rightarrow> node \<Rightarrow> bool" where
  "with_class nm c (Text t) = False"
| "with_class nm c (Elem nm' cls i h ks) = (nm' = nm \<and> c \<in> set cls)"

fun with_id :: "string \<Rightarrow> node \<Rightarrow> bool" where
  "with_id x (Text t) = False"
| "with_id x (Elem nm cls i h ks) = (i = Some x)"

text \<open>\<^verbatim>\<open>tag.text\<close>: the text nodes below the tag, concatenated in document order.\<close>

fun node_text :: "node \<Rightarrow> pystr" where
  "node_text (Text t) = t"
| "node_text (Elem nm cls i h ks) = concat (map node_text ks)"

text \<open>
  \<^verbatim>\<open>for element in content_div.find_all(['div', 'span']): element.decompose()\<close>
  removes every \<open>div\<close> and \<open>span\<close> below the container, with all they contain; the
  container itself stays. What is left of the tree is \<open>decompose_wrappers\<close>.
\<close>

definition wrapper :: "node \<Rightarrow> bool" where
  "wrapper n \<longleftrightarrow> named ''div'' n \<or> named ''span'' n"

fun decompose_wrappers :: "node \<Rightarrow> node" where
  "decompose_wrappers (Text t) = Text t"
| "decompose_wrappers (Elem nm cls i h ks) =
     Elem nm cls i h (map decompose_wrappers (filter (\<lambda>k. \<not> wrapper k) ks))"

section \<open>The world outside: HTTP, the clock, the log\<close>

datatype exn = RequestException | KeyError | ValueError | OverflowError | OtherException

record response =
  status_code :: nat
  resp_text :: pystr

text \<open>
  \<^verbatim>\<open>response.raise_for_status()\<close> raises an \<open>HTTPError\<close>, which is a
  \<open>RequestException\<close>, for the client and server error codes 400 to 599, and nothing
  otherwise; the truth value of a response (\<^verbatim>\<open>if not response\<close>) is the same test.
\<close>

definition ok :: "response \<Rightarrow> bool" where
  "ok r \<longleftrightarrow> \<not> (400 \<le> status_code r \<and> status_code r < 600)"

datatype outcome = Raises exn | Responds response

text \<open>
  What the program does to the world is a trace of events. \<open>Sleep d k\<close> is
  \<^verbatim>\<open>time.sleep(d + u)\<close> where \<open>u\<close> is the \<open>k\<close>-th value drawn from
  \<^verbatim>\<open>random.uniform(1, 3)\<close>; \<open>Warning a m\<close> is the log line of a failed request,
  "attempt \<open>a\<close> of \<open>m\<close>"; \<open>Error\<close> is a \<^verbatim>\<open>logger.error\<close> line.
\<close>

datatype event = Get pystr | Warning int int | Sleep int nat | Error

record world =
  requests_made :: nat
  draws_made :: nat
  events :: "event list"

text \<open>
  The environment the scraper runs in: the Unicode table behind \<open>\w\<close>; the outcome of
  the \<open>n\<close>-th GET the session performs (it may depend on the url; a timeout is a
  \<open>RequestException\<close>); what \<^verbatim>\<open>time.sleep(d + u)\<close> does with the \<open>k\<close>-th draw \<open>u\<close>,
  which is to return (\<open>None\<close>) or to raise, a \<open>ValueError\<close> when the length is negative
  and an \<open>OverflowError\<close> when it is more than the clock can hold; and the parser (\<open>None\<close>
  when it raises).
\<close>

record env =
  alnum :: "nat \<Rightarrow> bool"
  http_get :: "nat \<Rightarrow> pystr \<Rightarrow> outcome"
  time_sleep :: "int \<Rightarrow> nat \<Rightarrow> exn option"
  parse :: "pystr \<Rightarrow> node option"

record scraper =
  max_retries :: int
  retry_delay :: int

definition emit :: "event list \<Rightarrow> world \<Rightarrow> world" where
  "emit es w = w\<lparr>events := events w @ es\<rparr>"

section \<open>The fetcher: \<open>PTTScraper._make_request\<close>\<close>

text \<open>
  The body of the \<^verbatim>\<open>try\<close>: \<^verbatim>\<open>session.get\<close> followed by
  \<^verbatim>\<open>raise_for_status\<close>, as the \<open>n\<close>-th request of the session.
\<close>

definition try_get :: "env \<Rightarrow> nat \<Rightarrow> pystr \<Rightarrow> exn + response" where
  "try_get E n url =
     (case http_get E n url of
        Raises e \<Rightarrow> Inl e
      | Responds r \<Rightarrow> if ok r then Inr r else Inl RequestException)"

definition py_range :: "int \<Rightarrow> int list" where
  "py_range n = map int [0..<nat n]"

text \<open>
  The \<^verbatim>\<open>except requests.exceptions.RequestException\<close> block of attempt \<open>attempt\<close>: the
  warning, then the sleep unless this was the last attempt. An exception of
  \<^verbatim>\<open>time.sleep\<close> is raised from inside the handler, so nothing catches it.
\<close>

definition on_failure :: "env \<Rightarrow> scraper \<Rightarrow> int \<Rightarrow> world \<Rightarrow> exn option \<times> world" where
  "on_failure E S attempt w1 =
     (let w2 = emit [Warning (attempt + 1) (max_retries S)] w1 in
      if attempt < max_retries S - 1
      then (let w3 = w2\<lparr>draws_made := Suc (draws_made w2)\<rparr> in
            case time_sleep E (retry_delay S) (draws_made w2) of
              Some e \<Rightarrow> (Some e, w3)
            | None \<Rightarrow> (None, emit [Sleep (retry_delay S) (draws_made w2)] w3))
      else (None, w2))"

text \<open>
  \<^verbatim>\<open>for attempt in range(self.max_retries)\<close>, over the attempts still to make. Only a
  \<open>RequestException\<close> is caught; any other exception leaves the function. Falling out
  of the loop returns \<open>None\<close>.
\<close>

fun request_loop ::
  "env \<Rightarrow> scraper \<Rightarrow> pystr \<Rightarrow> int list \<Rightarrow> world \<Rightarrow> (exn + response option) \<times> world" where
  "request_loop E S url [] w = (Inr None, w)"
| "request_loop E S url (attempt # rest) w =
     (let w1 = emit [Get url] (w\<lparr>requests_made := Suc (requests_made w)\<rparr>) in
      case try_get E (requests_made w) url of
        Inr r \<Rightarrow> (Inr (Some r), w1)
      | Inl RequestException \<Rightarrow>
          (case on_failure E S attempt w1 of
             (Some e, w3) \<Rightarrow> (Inl e, w3)
           | (None, w3) \<Rightarrow> request_loop E S url rest w3)
      | Inl e \<Rightarrow> (Inl e, w1))"

definition make_request ::
  "env \<Rightarrow> scraper \<Rightarrow> pystr \<Rightarrow> world \<Rightarrow> (exn + response option) \<times> world" where
  "make_request E S url w = request_loop E S url (py_range (max_retries S)) w"

section \<open>Post records\<close>

text \<open>
  A post is a Python \<open>dict\<close> from field names to strings, kept in insertion order.
  \<open>dict_set\<close> is \<^verbatim>\<open>d[k] = v\<close>; looking a key up is \<open>map_of\<close>, and a missing key is
  a \<open>KeyError\<close> where the source indexes with \<^verbatim>\<open>d[k]\<close>.
\<close>

type_synonym post = "(string \<times> pystr) list"

fun dict_set :: "post \<Rightarrow> string \<Rightarrow> pystr \<Rightarrow> post" where
  "dict_set [] k v = [(k, v)]"
| "dict_set ((k', v') # d) k v = (if k' = k then (k, v) # d else (k', v') # dict_set d k v)"

text \<open>\<^verbatim>\<open>xs[:n]\<close>: the first \<open>n\<close> items, or all but the last \<open>-n\<close> when \<open>n\<close> is negative.\<close>

definition slice_to :: "'a list \<Rightarrow> int \<Rightarrow> 'a list" where
  "slice_to xs n = (if 0 \<le> n then take (nat n) xs else take (length xs - nat (- n)) xs)"

section \<open>The post-list extractor: \<open>PTTScraper._extract_post_info\<close>\<close>

definition na :: pystr where
  "na = lit ''N/A''"

definition base_origin :: pystr where
  "base_origin = lit ''https://www.ptt.cc''"

fun href_of :: "node \<Rightarrow> exn + pystr" where
  "href_of (Elem nm cls i (Some h) ks) = Inr h"
| "href_of n = Inl KeyError"

text \<open>
  The body of the \<^verbatim>\<open>try\<close>. \<^verbatim>\<open>title_tag.a\<close> is the first \<open>a\<close> element below the
  title; \<^verbatim>\<open>title_tag.a['href']\<close> raises \<open>KeyError\<close> when the link has no \<open>href\<close>.
\<close>

definition post_info_of :: "(nat \<Rightarrow> bool) \<Rightarrow> node \<Rightarrow> exn + post option" where
  "post_info_of an post_div =
     (case find_tag (with_class ''div'' ''title'') post_div of
        None \<Rightarrow> Inr None
      | Some title_tag \<Rightarrow>
          (case find_tag (named ''a'') title_tag of
             None \<Rightarrow> Inr None
           | Some a \<Rightarrow>
               (let title = strip (node_text a) in
                case href_of a of
                  Inl e \<Rightarrow> Inl e
                | Inr h \<Rightarrow>
                    (let link = base_origin @ h;
                         author = (case find_tag (with_class ''div'' ''author'') post_div of
                                     Some author_tag \<Rightarrow> strip (node_text author_tag)
                                   | None \<Rightarrow> na);
                         date = (case find_tag (with_class ''div'' ''date'') post_div of
                                   Some date_tag \<Rightarrow> strip (node_text date_tag)
                                 | None \<Rightarrow> na)
                     in Inr (Some [(''title'', clean_text an title),
                                   (''link'', link),
                                   (''author'', clean_text an author),
                                   (''date'', clean_text an date)])))))"

text \<open>The \<^verbatim>\<open>except Exception\<close>: log the error and return \<open>None\<close>.\<close>

definition extract_post_info :: "env \<Rightarrow> node \<Rightarrow> world \<Rightarrow> post option \<times> world" where
  "extract_post_info E post_div w =
     (case post_info_of (alnum E) post_div of
        Inl e \<Rightarrow> (None, emit [Error] w)
      | Inr r \<Rightarrow> (r, w))"

section \<open>The content extractor: \<open>PTTScraper._get_post_content\<close>\<close>

text \<open>The three fixed strings the function returns when it has no content to give.\<close>

definition content_unavailable :: pystr where
  "content_unavailable = [0x7121, 0x6CD5, 0x7372, 0x53D6, 0x6587, 0x7AE0, 0x5167, 0x5BB9]"

definition content_not_found :: pystr where
  "content_not_found = [0x7121, 0x6CD5, 0x627E, 0x5230, 0x6587, 0x7AE0, 0x5167, 0x5BB9]"

definition content_error :: pystr where
  "content_error =
     [0x7372, 0x53D6, 0x6587, 0x7AE0, 0x5167, 0x5BB9, 0x6642, 0x767C, 0x751F, 0x932F, 0x8AA4]"

text \<open>
  \<^verbatim>\<open>if not response: return ...\<close> leaves on \<open>None\<close> and on a response that is not
  \<open>ok\<close>; \<open>truthy\<close> is the response the code goes on with, if any.
\<close>

fun truthy :: "response option \<Rightarrow> response option" where
  "truthy None = None"
| "truthy (Some r) = (if ok r then Some r else None)"

text \<open>The text the function extracts from the main-content container.\<close>

definition container_text :: "node \<Rightarrow> pystr" where
  "container_text content_div = strip (node_text (decompose_wrappers content_div))"

text \<open>The body of the \<^verbatim>\<open>try\<close>, then the function with its \<^verbatim>\<open>except Exception\<close>.\<close>

definition post_content_of :: "env \<Rightarrow> scraper \<Rightarrow> pystr \<Rightarrow> world \<Rightarrow> (exn + pystr) \<times> world" where
  "post_content_of E S url w =
     (case make_request E S url w of
        (Inl e, w1) \<Rightarrow> (Inl e, w1)
      | (Inr response, w1) \<Rightarrow>
          (case truthy response of
             None \<Rightarrow> (Inr content_unavailable, w1)
           | Some r \<Rightarrow>
               (case parse E (resp_text r) of
                  None \<Rightarrow> (Inl OtherException, w1)
                | Some soup \<Rightarrow>
                    (case find_tag (with_id ''main-content'') soup of
                       None \<Rightarrow> (Inr content_not_found, w1)
                     | Some content_div \<Rightarrow>
                         (Inr (clean_text (alnum E) (container_text content_div)), w1)))))"

definition get_post_content :: "env \<Rightarrow> scraper \<Rightarrow> pystr \<Rightarrow> world \<Rightarrow> pystr \<times> world" where
  "get_post_content E S url w =
     (case post_content_of E S url w of
        (Inl e, w1) \<Rightarrow> (content_error, emit [Error] w1)
      | (Inr content, w1) \<Rightarrow> (content, w1))"

section \<open>The entry point: \<open>PTTScraper.get_ptt_stock_posts\<close>\<close>

text \<open>
  The loop over the sliced containers, with \<open>posts_data\<close> as accumulator. An empty
  dict is false in \<^verbatim>\<open>if post_info\<close>; \<^verbatim>\<open>post_info['link']\<close> on a dict without
  that key is a \<open>KeyError\<close>, which the loop's own \<^verbatim>\<open>except\<close> logs before it goes on.
\<close>

fun posts_loop :: "env \<Rightarrow> scraper \<Rightarrow> node list \<Rightarrow> post list \<Rightarrow> world \<Rightarrow> post list \<times> world" where
  "posts_loop E S [] posts_data w = (posts_data, w)"
| "posts_loop E S (post_div # rest) posts_data w =
     (case extract_post_info E post_div w of
        (None, w1) \<Rightarrow> posts_loop E S rest posts_data w1
      | (Some post_info, w1) \<Rightarrow>
          if post_info = [] then posts_loop E S rest posts_data w1
          else (case map_of post_info ''link'' of
                  None \<Rightarrow> posts_loop E S rest posts_data (emit [Error] w1)
                | Some link \<Rightarrow>
                    (case get_post_content E S link w1 of
                       (content, w2) \<Rightarrow>
                         posts_loop E S rest
                           (posts_data @ [dict_set post_info ''content'' content]) w2)))"

text \<open>
  The outer \<^verbatim>\<open>try\<close>: an exception of the listing fetch or of the parser is logged and
  the result is the empty list.
\<close>

definition post_entry :: "node \<Rightarrow> bool" where
  "post_entry = with_class ''div'' ''r-ent''"

definition get_ptt_stock_posts ::
  "env \<Rightarrow> scraper \<Rightarrow> pystr \<Rightarrow> int \<Rightarrow> world \<Rightarrow> post list \<times> world" where
  "get_ptt_stock_posts E S url num_posts w =
     (case make_request E S url w of
        (Inl e, w1) \<Rightarrow> ([], emit [Error] w1)
      | (Inr response, w1) \<Rightarrow>
          (case truthy response of
             None \<Rightarrow> ([], w1)
           | Some r \<Rightarrow>
               (case parse E (resp_text r) of
                  None \<Rightarrow> ([], emit [Error] w1)
                | Some soup \<Rightarrow>
                    posts_loop E S (slice_to (find_all post_entry soup) num_posts) [] w1)))"

section \<open>Describing a run of the fetcher\<close>

text \<open>
  The \<open>j\<close>-th attempt of a call of the fetcher (counted from 0) is the request number
  \<open>requests_made w + j\<close> of the session. It fails when \<^verbatim>\<open>session.get\<close> or
  \<^verbatim>\<open>raise_for_status\<close> raises a \<open>RequestException\<close>.
\<close>

definition fails :: "env \<Rightarrow> pystr \<Rightarrow> world \<Rightarrow> nat \<Rightarrow> bool" where
  "fails E url w j \<longleftrightarrow> try_get E (requests_made w + j) url = Inl RequestException"

text \<open>
  What a failed attempt \<open>j\<close> leaves in the trace when \<open>d\<close> draws were made before the
  call: the request, the warning, and a sleep unless \<open>j\<close> is the last attempt.
\<close>

definition failed_attempt :: "scraper \<Rightarrow> pystr \<Rightarrow> nat \<Rightarrow> nat \<Rightarrow> event list" where
  "failed_attempt S url d j =
     [Get url, Warning (int j + 1) (max_retries S)] @
     (if int j < max_retries S - 1 then [Sleep (retry_delay S) (d + j)] else [])"

definition after_failed :: "scraper \<Rightarrow> pystr \<Rightarrow> world \<Rightarrow> nat \<Rightarrow> world" where
  "after_failed S url w i =
     w\<lparr>requests_made := requests_made w + i,
       draws_made := draws_made w + min i (nat (max_retries S - 1)),
       events := events w @ concat (map (failed_attempt S url (draws_made w)) [0..<i])\<rparr>"

text \<open>The scraper's delay is one that \<^verbatim>\<open>time.sleep\<close> accepts, whatever the draw.\<close>

definition accepts_delay :: "env \<Rightarrow> scraper \<Rightarrow> bool" where
  "accepts_delay E S \<longleftrightarrow> (\<forall>k. time_sleep E (retry_delay S) k = None)"

text \<open>The reading of "an attempt succeeds" as "it answers with a 2xx status".\<close>

fun succeeds_2xx :: "outcome \<Rightarrow> bool" where
  "succeeds_2xx (Raises e) = False"
| "succeeds_2xx (Responds r) = (200 \<le> status_code r \<and> status_code r < 300)"

section \<open>Describing a listing\<close>

text \<open>
  A container has a title when it holds a title element with a link below it; it is
  linked when that link also carries an \<open>href\<close>.
\<close>

definition has_title :: "node \<Rightarrow> bool" where
  "has_title post_div =
     (case find_tag (with_class ''div'' ''title'') post_div of
        None \<Rightarrow> False
      | Some title_tag \<Rightarrow> find_tag (named ''a'') title_tag \<noteq> None)"

definition lacks_title :: "node \<Rightarrow> bool" where
  "lacks_title post_div \<longleftrightarrow> \<not> has_title post_div"

definition linked :: "node \<Rightarrow> bool" where
  "linked post_div =
     (case find_tag (with_class ''div'' ''title'') post_div of
        None \<Rightarrow> False
      | Some title_tag \<Rightarrow>
          (case find_tag (named ''a'') title_tag of
             None \<Rightarrow> False
           | Some a \<Rightarrow> href_of a \<noteq> Inl KeyError))"

definition unlinked :: "node \<Rightarrow> bool" where
  "unlinked post_div \<longleftrightarrow> \<not> linked post_div"

text \<open>The summary of a container, or \<open>None\<close> for one that is skipped.\<close>

definition summary :: "(nat \<Rightarrow> bool) \<Rightarrow> node \<Rightarrow> post option" where
  "summary an post_div = (case post_info_of an post_div of Inl e \<Rightarrow> None | Inr r \<Rightarrow> r)"

definition without_content :: "post \<Rightarrow> post" where
  "without_content p = filter (\<lambda>kv. fst kv \<noteq> ''content'') p"

definition fields :: "string list" where
  "fields = [''title'', ''link'', ''author'', ''date'', ''content'']"

section \<open>Sample sites\<close>

definition fresh :: world where
  "fresh = \<lparr>requests_made = 0, draws_made = 0, events = []\<rparr>"

text \<open>The scraper as \<^verbatim>\<open>PTTScraper()\<close> builds it, and one that never tries.\<close>

definition default_scraper :: scraper where
  "default_scraper = \<lparr>max_retries = 3, retry_delay = 5\<rparr>"

definition idle_scraper :: scraper where
  "idle_scraper = \<lparr>max_retries = 0, retry_delay = 5\<rparr>"

text \<open>A scraper set up with a negative delay.\<close>

definition hasty_scraper :: scraper where
  "hasty_scraper = \<lparr>max_retries = 3, retry_delay = - 10\<rparr>"

text \<open>
  A clock for the sample sites. A draw of \<^verbatim>\<open>random.uniform(1, 3)\<close> is between 1 and 3,
  so a delay from -1 up to 9223372033 seconds is always slept; the sample clock refuses
  the others.
\<close>

definition sample_sleep :: "int \<Rightarrow> nat \<Rightarrow> exn option" where
  "sample_sleep d k =
     (if d < - 1 then Some ValueError
      else if 9223372033 < d then Some OverflowError
      else None)"

definition stock_index :: pystr where
  "stock_index = lit ''https://www.ptt.cc/bbs/Stock/index.html''"

definition page :: "nat \<Rightarrow> pystr \<Rightarrow> response" where
  "page st t = \<lparr>status_code = st, resp_text = t\<rparr>"

text \<open>
  A listing of two entries, the first one deleted (a title without a link), and a post
  page with a header block, body text and a signature.
\<close>

definition sample_listing :: node where
  "sample_listing =
     Elem ''[document]'' [] None None
       [Elem ''div'' [''r-ent''] None None
          [Elem ''div'' [''title''] None None [Text (lit '' (deleted) '')],
           Elem ''div'' [''author''] None None [Text (lit ''-'')]],
        Elem ''div'' [''r-ent''] None None
          [Elem ''div'' [''title''] None None
             [Elem ''a'' [] None (Some (lit ''/M.1.html'')) [Text (lit ''[News] Up'')]],
           Elem ''div'' [''meta''] None None
             [Elem ''div'' [''author''] None None [Text (lit ''amy'')],
              Elem ''div'' [''date''] None None [Text (lit '' 5/01'')]]]]"

definition sample_post :: node where
  "sample_post =
     Elem ''[document]'' [] None None
       [Elem ''div'' [] (Some ''main-content'') None
          [Elem ''div'' [''article-metaline''] None None
             [Elem ''span'' [] None None [Text (lit ''amy'')]],
           Text (lit ''Up 3% !'' @ [0x0A]),
           Elem ''span'' [''f2''] None None [Text (lit ''-- sig'')]]]"

text \<open>A post page whose body, outside its nested blocks, is only symbols.\<close>

definition symbols_container :: node where
  "symbols_container =
     Elem ''div'' [] (Some ''main-content'') None
       [Elem ''span'' [] None None [Text (lit ''quoted'')],
        Text (lit '' ~~ '' @ [0x0A])]"

definition symbols_post :: node where
  "symbols_post = Elem ''[document]'' [] None None [symbols_container]"

definition sample_parse :: "pystr \<Rightarrow> node option" where
  "sample_parse t =
     (if t = lit ''listing'' then Some sample_listing
      else if t = lit ''post'' then Some sample_post
      else if t = lit ''symbols'' then Some symbols_post
      else None)"

text \<open>A site that answers every request: the index with the listing, the rest with the post.\<close>

definition sample_get :: "nat \<Rightarrow> pystr \<Rightarrow> outcome" where
  "sample_get n url =
     Responds (page 200 (if url = stock_index then lit ''listing'' else lit ''post''))"

definition sample_site :: env where
  "sample_site =
     \<lparr>alnum = ascii_alnum, http_get = sample_get, time_sleep = sample_sleep, parse = sample_parse\<rparr>"

text \<open>A site whose pages are all the symbols-only post.\<close>

definition symbols_get :: "nat \<Rightarrow> pystr \<Rightarrow> outcome" where
  "symbols_get n url = Responds (page 200 (lit ''symbols''))"

definition symbols_site :: env where
  "symbols_site =
     \<lparr>alnum = ascii_alnum, http_get = symbols_get, time_sleep = sample_sleep, parse = sample_parse\<rparr>"

text \<open>A site that is down: every request gets a 500.\<close>

definition down_get :: "nat \<Rightarrow> pystr \<Rightarrow> outcome" where
  "down_get n url = Responds (page 500 [])"

definition down_site :: env where
  "down_site =
     \<lparr>alnum = ascii_alnum, http_get = down_get, time_sleep = sample_sleep, parse = sample_parse\<rparr>"

text \<open>A site that times out once, answers 503 once, and then serves the post.\<close>

definition flaky_get :: "nat \<Rightarrow> pystr \<Rightarrow> outcome" where
  "flaky_get n url =
     (if n = 0 then Raises RequestException
      else if n = 1 then Responds (page 503 [])
      else Responds (page 200 (lit ''post'')))"

definition flaky_site :: env where
  "flaky_site =
     \<lparr>alnum = ascii_alnum, http_get = flaky_get, time_sleep = sample_sleep, parse = sample_parse\<rparr>"

text \<open>A site that answers the first request with 304 and the later ones with 200.\<close>

definition stale_get :: "nat \<Rightarrow> pystr \<Rightarrow> outcome" where
  "stale_get n url = (if n = 0 then Responds (page 304 []) else Responds (page 200 (lit ''post'')))"

definition stale_site :: env where
  "stale_site =
     \<lparr>alnum = ascii_alnum, http_get = stale_get, time_sleep = sample_sleep, parse = sample_parse\<rparr>"

section \<open>Facts about the sanitizer\<close>

lemma set_strip: "set (strip t) \<subseteq> set t"
proof -
  have "set (strip t) = set (dropWhile isspace (rev (dropWhile isspace t)))"
    by (simp add: strip_def)
  also have "\<dots> \<subseteq> set (rev (dropWhile isspace t))"
    by (auto dest: set_dropWhileD)
  also have "\<dots> \<subseteq> set t"
    by (auto dest: set_dropWhileD)
  finally show ?thesis .
qed

lemma clean_text_allowed: "c \<in> set (clean_text an t) \<Longrightarrow> allowed an c"
  using set_strip [of "sub_special an (sub_ws t)"]
  by (auto simp: clean_text_def sub_special_def)

lemma set_sub_ws: "set (sub_ws t) \<subseteq> insert 0x20 (set t)"
proof (induction t rule: sub_ws.induct)
  case 1
  show ?case by simp
next
  case (2 c cs)
  show ?case
  proof (cases "isspace c")
    case True
    with 2 have "set (sub_ws (dropWhile isspace cs)) \<subseteq> insert 0x20 (set (dropWhile isspace cs))"
      by simp
    also have "\<dots> \<subseteq> insert 0x20 (set cs)"
      by (auto dest: set_dropWhileD)
    finally show ?thesis using True by auto
  next
    case False
    with 2 show ?thesis by auto
  qed
qed

lemma isspace_space: "isspace 0x20"
  by (simp add: isspace_def)

lemma strip_all_space: "\<forall>c \<in> set t. isspace c \<Longrightarrow> strip t = []"
  by (auto simp: strip_def dest: set_dropWhileD)

lemma clean_text_empty:
  assumes "\<forall>c \<in> set t. \<not> allowed an c \<or> isspace c"
  shows "clean_text an t = []"
proof -
  have "\<forall>c \<in> set (sub_special an (sub_ws t)). isspace c"
  proof
    fix c assume c: "c \<in> set (sub_special an (sub_ws t))"
    then have "allowed an c" and "c \<in> set (sub_ws t)"
      by (auto simp: sub_special_def)
    then have "c = 0x20 \<or> c \<in> set t"
      using set_sub_ws [of t] by auto
    then show "isspace c"
      using assms \<open>allowed an c\<close> isspace_space by auto
  qed
  then show ?thesis
    unfolding clean_text_def by (rule strip_all_space)
qed

lemma strip_edges:
  assumes "strip t \<noteq> []"
  shows "\<not> isspace (hd (strip t)) \<and> \<not> isspace (last (strip t))"
proof -
  define u where "u = dropWhile isspace t"
  define v where "v = dropWhile isspace (rev u)"
  have st: "strip t = rev v" by (simp add: strip_def u_def v_def)
  with assms have v: "v \<noteq> []" by simp
  then have "\<not> isspace (hd v)" unfolding v_def by (rule hd_dropWhile)
  then have l: "\<not> isspace (last (strip t))" using v by (simp add: st last_rev)
  from v have ru: "rev u \<noteq> []" by (auto simp: v_def)
  obtain ys where "rev u = ys @ v"
    unfolding v_def by (metis takeWhile_dropWhile_id)
  then have "last v = last (rev u)" using v by simp
  also have "\<dots> = hd u" using ru by (simp add: last_rev)
  finally have "hd (strip t) = hd u" using v by (simp add: st hd_rev)
  moreover have "\<not> isspace (hd u)" using ru unfolding u_def by (simp add: hd_dropWhile)
  ultimately show ?thesis using l by simp
qed

lemma sub_ws_spaces: "c \<in> set (sub_ws t) \<Longrightarrow> isspace c \<Longrightarrow> c = 0x20"
proof (induction t rule: sub_ws.induct)
  case 1
  then show ?case by simp
next
  case (2 d ds)
  then show ?case by (cases "isspace d") auto
qed

lemma clean_text_spaces:
  assumes "c \<in> set (clean_text an t)" and "isspace c"
  shows "c = 0x20"
proof -
  from assms(1) have "c \<in> set (sub_ws t)"
    using set_strip [of "sub_special an (sub_ws t)"]
    by (auto simp: clean_text_def sub_special_def)
  then show ?thesis using assms(2) by (rule sub_ws_spaces)
qed

lemma clean_text_edges:
  "clean_text an t \<noteq> [] \<Longrightarrow>
     \<not> isspace (hd (clean_text an t)) \<and> \<not> isspace (last (clean_text an t))"
  unfolding clean_text_def by (rule strip_edges)

text \<open>
  A second pass of the sanitizer does nothing but collapse the spaces again, and from the
  second pass on the text no longer changes.
\<close>

lemma dropWhile_sub_ws:
  "t = [] \<or> \<not> isspace (hd t) \<Longrightarrow> dropWhile isspace (sub_ws t) = sub_ws t"
  by (cases t) auto

lemma sub_ws_idem: "sub_ws (sub_ws t) = sub_ws t"
proof (induction t rule: sub_ws.induct)
  case 1
  show ?case by simp
next
  case (2 c cs)
  show ?case
  proof (cases "isspace c")
    case True
    have "dropWhile isspace cs = [] \<or> \<not> isspace (hd (dropWhile isspace cs))"
      using hd_dropWhile [of isspace cs] by blast
    then have "dropWhile isspace (sub_ws (dropWhile isspace cs)) = sub_ws (dropWhile isspace cs)"
      by (rule dropWhile_sub_ws)
    with True 2 show ?thesis by (simp add: isspace_space)
  next
    case False
    with 2 show ?thesis by simp
  qed
qed

lemma sub_ws_hd: "t \<noteq> [] \<Longrightarrow> \<not> isspace (hd t) \<Longrightarrow> sub_ws t \<noteq> [] \<and> hd (sub_ws t) = hd t"
  by (cases t) auto

lemma sub_ws_last:
  "t \<noteq> [] \<Longrightarrow> \<not> isspace (last t) \<Longrightarrow> sub_ws t \<noteq> [] \<and> last (sub_ws t) = last t"
proof (induction t rule: sub_ws.induct)
  case 1
  then show ?case by simp
next
  case (2 c cs)
  show ?case
  proof (cases "isspace c")
    case True
    with 2(3,4) have cs: "cs \<noteq> []" and lc: "\<not> isspace (last cs)" by (auto split: if_splits)
    then have "last cs \<in> set cs" by simp
    with lc have d: "dropWhile isspace cs \<noteq> []" by (auto simp: dropWhile_eq_Nil_conv)
    then have ld: "last (dropWhile isspace cs) = last cs"
      by (metis last_appendR takeWhile_dropWhile_id)
    with 2(1) [OF True d] lc True cs show ?thesis by simp
  next
    case False
    show ?thesis
    proof (cases "cs = []")
      case True
      with False show ?thesis by simp
    next
      case ne: False
      with 2(3,4) have "\<not> isspace (last cs)" by simp
      with 2(2) [OF False ne] False ne show ?thesis by simp
    qed
  qed
qed

lemma strip_id:
  assumes "t = [] \<or> (\<not> isspace (hd t) \<and> \<not> isspace (last t))"
  shows "strip t = t"
proof (cases "t = []")
  case True
  then show ?thesis by (simp add: strip_def)
next
  case False
  with assms have h: "\<not> isspace (hd t)" and l: "\<not> isspace (last t)" by auto
  from False h have a: "dropWhile isspace t = t" by (cases t) auto
  from False l have "\<not> isspace (hd (rev t))" by (simp add: hd_rev)
  with False have "dropWhile isspace (rev t) = rev t" by (cases "rev t") auto
  with a show ?thesis by (simp add: strip_def)
qed

lemma clean_text_again: "clean_text an (clean_text an t) = sub_ws (clean_text an t)"
proof -
  define u where "u = clean_text an t"
  have "\<forall>c \<in> set (sub_ws u). allowed an c"
  proof
    fix c assume "c \<in> set (sub_ws u)"
    then have "c = 0x20 \<or> c \<in> set u" using set_sub_ws [of u] by auto
    then show "allowed an c"
      using clean_text_allowed [of c an t] isspace_space by (auto simp: u_def allowed_def)
  qed
  then have f: "sub_special an (sub_ws u) = sub_ws u"
    by (simp add: sub_special_def)
  have "strip (sub_ws u) = sub_ws u"
  proof (cases "u = []")
    case True
    then show ?thesis by (simp add: strip_def)
  next
    case False
    then have "\<not> isspace (hd u)" and "\<not> isspace (last u)"
      using clean_text_edges [of an t] by (simp_all add: u_def)
    with False show ?thesis
      using sub_ws_hd [of u] sub_ws_last [of u] by (intro strip_id) simp
  qed
  with f show ?thesis by (simp add: clean_text_def u_def)
qed

lemma clean_text_stable:
  "clean_text an (clean_text an (clean_text an t)) = clean_text an (clean_text an t)"
proof -
  have a: "clean_text an (clean_text an t) = sub_ws (clean_text an t)"
    by (rule clean_text_again)
  have "clean_text an (clean_text an (clean_text an t)) = sub_ws (clean_text an (clean_text an t))"
    by (rule clean_text_again)
  also have "\<dots> = sub_ws (sub_ws (clean_text an t))"
    by (simp only: a)
  also have "\<dots> = sub_ws (clean_text an t)"
    by (rule sub_ws_idem)
  also have "\<dots> = clean_text an (clean_text an t)"
    by (simp only: a)
  finally show ?thesis .
qed

section \<open>Facts about the fetcher\<close>

lemma after_failed_0: "after_failed S url w 0 = w"
  by (simp add: after_failed_def)

lemma on_failure_requests: "requests_made (snd (on_failure E S a w)) = requests_made w"
  by (simp add: on_failure_def emit_def Let_def split: option.splits)

lemma on_failure_accepted:
  assumes "accepts_delay E S"
  shows "on_failure E S a w =
     (None,
      let w2 = emit [Warning (a + 1) (max_retries S)] w
      in if a < max_retries S - 1
         then emit [Sleep (retry_delay S) (draws_made w2)] (w2\<lparr>draws_made := Suc (draws_made w2)\<rparr>)
         else w2)"
  using assms by (simp add: on_failure_def accepts_delay_def Let_def)

lemma after_failed_Suc:
  "after_failed S url w (Suc i) =
     (let w2 = emit [Warning (int i + 1) (max_retries S)]
                 (emit [Get url] ((after_failed S url w i)
                    \<lparr>requests_made := Suc (requests_made (after_failed S url w i))\<rparr>))
      in if int i < max_retries S - 1
         then emit [Sleep (retry_delay S) (draws_made w2)] (w2\<lparr>draws_made := Suc (draws_made w2)\<rparr>)
         else w2)"
proof (cases "int i < max_retries S - 1")
  case True
  then have "min i (nat (max_retries S - 1)) = i"
    and "min (Suc i) (nat (max_retries S - 1)) = Suc i"
    by simp_all
  then show ?thesis
    using True by (simp add: after_failed_def emit_def failed_attempt_def Let_def)
next
  case False
  then have "min i (nat (max_retries S - 1)) = nat (max_retries S - 1)"
    and "min (Suc i) (nat (max_retries S - 1)) = nat (max_retries S - 1)"
    by simp_all
  then show ?thesis
    using False by (simp add: after_failed_def emit_def failed_attempt_def Let_def)
qed

lemma loop_skip_failed:
  assumes "accepts_delay E S" and "\<forall>j<i. fails E url w j" and "i \<le> n"
  shows "request_loop E S url (map int [0..<n]) w =
         request_loop E S url (map int [i..<n]) (after_failed S url w i)"
  using assms(2,3)
proof (induction i)
  case 0
  show ?case by (simp add: after_failed_0)
next
  case (Suc i)
  then have lt: "i < n" and f: "fails E url w i" and prev: "\<forall>j<i. fails E url w j"
    by auto
  have step: "request_loop E S url (map int [i..<n]) (after_failed S url w i) =
        request_loop E S url (map int [Suc i..<n]) (after_failed S url w (Suc i))"
  proof -
    have l: "map int [i..<n] = int i # map int [Suc i..<n]"
      using lt by (simp add: upt_conv_Cons)
    have t: "try_get E (requests_made (after_failed S url w i)) url = Inl RequestException"
      using f by (simp add: fails_def after_failed_def)
    show ?thesis
      unfolding l after_failed_Suc [of S url w i]
      by (simp add: t on_failure_accepted [OF assms(1)] Let_def)
  qed
  from Suc.IH prev lt have "request_loop E S url (map int [0..<n]) w =
        request_loop E S url (map int [i..<n]) (after_failed S url w i)"
    by simp
  with step show ?case by simp
qed

text \<open>One turn of the loop either leaves it or goes on in a world with one more request.\<close>

lemma request_loop_turn:
  "(\<exists>x. request_loop E S url (a # xs) w = x \<and>
        requests_made (snd x) = Suc (requests_made w) \<and>
        (\<forall>r. fst x = Inr (Some r) \<longrightarrow> try_get E (requests_made w) url = Inr r) \<and>
        fst x \<noteq> Inr None) \<or>
   (\<exists>w3. request_loop E S url (a # xs) w = request_loop E S url xs w3 \<and>
        requests_made w3 = Suc (requests_made w) \<and>
        try_get E (requests_made w) url = Inl RequestException)"
proof (cases "try_get E (requests_made w) url")
  case (Inr r)
  then show ?thesis by (simp add: emit_def)
next
  case (Inl e)
  show ?thesis
  proof (cases "e = RequestException")
    case False
    with Inl show ?thesis by (cases e) (simp_all add: emit_def)
  next
    case True
    obtain oe w3 where o: "on_failure E S a
        (emit [Get url] (w\<lparr>requests_made := Suc (requests_made w)\<rparr>)) = (oe, w3)"
      by (cases "on_failure E S a (emit [Get url] (w\<lparr>requests_made := Suc (requests_made w)\<rparr>))")
    have r: "requests_made w3 = Suc (requests_made w)"
    proof -
      have "requests_made (snd (on_failure E S a
                (emit [Get url] (w\<lparr>requests_made := Suc (requests_made w)\<rparr>)))) =
            requests_made (emit [Get url] (w\<lparr>requests_made := Suc (requests_made w)\<rparr>))"
        by (rule on_failure_requests)
      then show ?thesis unfolding o by (simp add: emit_def)
    qed
    show ?thesis
    proof (cases oe)
      case None
      with Inl True o have "request_loop E S url (a # xs) w = request_loop E S url xs w3"
        by simp
      with Inl True r show ?thesis by blast
    next
      case (Some e')
      with Inl True o have "request_loop E S url (a # xs) w = (Inl e', w3)"
        by simp
      with r show ?thesis by simp
    qed
  qed
qed

lemma request_loop_bound:
  "requests_made (snd (request_loop E S url xs w)) \<le> requests_made w + length xs"
proof (induction xs arbitrary: w)
  case Nil
  show ?case by simp
next
  case (Cons a xs)
  from request_loop_turn [of E S url a xs w] show ?case
  proof (elim disjE exE conjE)
    fix x assume "request_loop E S url (a # xs) w = x"
      and "requests_made (snd x) = Suc (requests_made w)"
    then show ?thesis by simp
  next
    fix w3 assume "request_loop E S url (a # xs) w = request_loop E S url xs w3"
      and "requests_made w3 = Suc (requests_made w)"
    then show ?thesis using Cons.IH [of w3] by simp
  qed
qed

lemma request_loop_some:
  "fst (request_loop E S url xs w) = Inr (Some r) \<Longrightarrow>
     \<exists>k < length xs. try_get E (requests_made w + k) url = Inr r"
proof (induction xs arbitrary: w)
  case Nil
  then show ?case by simp
next
  case (Cons a xs)
  from request_loop_turn [of E S url a xs w] show ?case
  proof (elim disjE exE conjE)
    fix x assume "request_loop E S url (a # xs) w = x"
      and "\<forall>r. fst x = Inr (Some r) \<longrightarrow> try_get E (requests_made w) url = Inr r"
    with Cons.prems have "try_get E (requests_made w + 0) url = Inr r" by simp
    then show ?thesis by blast
  next
    fix w3 assume e: "request_loop E S url (a # xs) w = request_loop E S url xs w3"
      and r: "requests_made w3 = Suc (requests_made w)"
    with Cons.prems have "fst (request_loop E S url xs w3) = Inr (Some r)" by simp
    then obtain k where "k < length xs" and "try_get E (requests_made w3 + k) url = Inr r"
      using Cons.IH by blast
    then have "Suc k < length (a # xs)" and "try_get E (requests_made w + Suc k) url = Inr r"
      using r by simp_all
    then show ?thesis by blast
  qed
qed

lemma make_request_all_failed:
  assumes "accepts_delay E S" and "\<forall>j < nat (max_retries S). fails E url w j"
  shows "make_request E S url w = (Inr None, after_failed S url w (nat (max_retries S)))"
  using loop_skip_failed [OF assms order_refl]
  by (simp add: make_request_def py_range_def)

lemma make_request_first_success:
  assumes "accepts_delay E S" and "\<forall>j<i. fails E url w j" and "i < nat (max_retries S)"
    and "try_get E (requests_made w + i) url = Inr r"
  shows "make_request E S url w =
     (Inr (Some r), emit [Get url] ((after_failed S url w i)\<lparr>requests_made := Suc (requests_made w + i)\<rparr>))"
proof -
  have le: "i \<le> nat (max_retries S)" using assms(3) by simp
  have l: "map int [i..<nat (max_retries S)] = int i # map int [Suc i..<nat (max_retries S)]"
    using assms(3) by (simp add: upt_conv_Cons)
  have rm: "requests_made (after_failed S url w i) = requests_made w + i"
    by (simp add: after_failed_def)
  show ?thesis
    using loop_skip_failed [OF assms(1,2) le]
    by (simp add: make_request_def py_range_def l rm assms(4))
qed

text \<open>A response the fetcher returns passed \<^verbatim>\<open>raise_for_status\<close>.\<close>

lemma try_get_ok: "try_get E k url = Inr r \<Longrightarrow> ok r"
  by (auto simp: try_get_def split: outcome.splits if_splits)

lemma make_request_ok: "fst (make_request E S url w) = Inr (Some r) \<Longrightarrow> ok r"
  unfolding make_request_def by (blast dest: request_loop_some try_get_ok)

lemma make_request_some_failed:
  assumes "\<forall>j < nat (max_retries S). fails E url w j"
  shows "fst (make_request E S url w) \<noteq> Inr (Some r)"
proof
  assume "fst (make_request E S url w) = Inr (Some r)"
  then have "\<exists>k < length (py_range (max_retries S)). try_get E (requests_made w + k) url = Inr r"
    unfolding make_request_def by (rule request_loop_some)
  then obtain k where "k < nat (max_retries S)" and "try_get E (requests_made w + k) url = Inr r"
    by (auto simp: py_range_def)
  with assms show False by (simp add: fails_def)
qed

section \<open>Facts about the extractors\<close>

lemmas sanitizer_defs =
  clean_text_def lit_def sub_special_def strip_def allowed_def isword_def ascii_alnum_def
  isspace_def iscjk_def ispunct_def

lemma get_post_content_cases:
  "fst (get_post_content E S url w) =
     (case fst (make_request E S url w) of
        Inl e \<Rightarrow> content_error
      | Inr None \<Rightarrow> content_unavailable
      | Inr (Some r) \<Rightarrow>
          (case parse E (resp_text r) of
             None \<Rightarrow> content_error
           | Some soup \<Rightarrow>
               (case find_tag (with_id ''main-content'') soup of
                  None \<Rightarrow> content_not_found
                | Some content_div \<Rightarrow> clean_text (alnum E) (container_text content_div))))"
proof (cases "make_request E S url w")
  case (Pair res w1)
  show ?thesis
  proof (cases res)
    case (Inl e)
    with Pair show ?thesis by (simp add: get_post_content_def post_content_of_def)
  next
    case (Inr ro)
    show ?thesis
    proof (cases ro)
      case None
      with Pair Inr show ?thesis by (simp add: get_post_content_def post_content_of_def)
    next
      case (Some r)
      with Pair Inr have "ok r" using make_request_ok [of E S url w r] by simp
      with Pair Inr Some show ?thesis
        by (simp add: get_post_content_def post_content_of_def split: option.splits)
    qed
  qed
qed

lemmas site_defs =
  sample_site_def symbols_site_def down_site_def flaky_site_def stale_site_def
  sample_get_def symbols_get_def down_get_def flaky_get_def stale_get_def
  sample_parse_def sample_sleep_def page_def default_scraper_def idle_scraper_def
  hasty_scraper_def fresh_def stock_index_def

lemmas fetch_defs =
  make_request_def py_range_def try_get_def ok_def emit_def on_failure_def Let_def upt_rec

lemmas markup_defs =
  find_tag_def find_all_def container_text_def wrapper_def post_entry_def
  sample_listing_def sample_post_def symbols_post_def symbols_container_def

lemma post_info_of_shape:
  assumes "post_info_of an d = Inr (Some info)"
  shows "\<exists>t l a dt. info = [(''title'', t), (''link'', l), (''author'', a), (''date'', dt)]"
  using assms
  by (auto simp: post_info_of_def Let_def split: option.splits sum.splits)

lemma summary_linked: "summary an d \<noteq> None \<longleftrightarrow> linked d"
proof (cases "find_tag (with_class ''div'' ''title'') d")
  case None
  then show ?thesis by (simp add: summary_def linked_def post_info_of_def)
next
  case t: (Some title_tag)
  show ?thesis
  proof (cases "find_tag (named ''a'') title_tag")
    case None
    with t show ?thesis by (simp add: summary_def linked_def post_info_of_def)
  next
    case a: (Some a)
    show ?thesis
    proof (cases "href_of a")
      case (Inl e)
      then have "e = KeyError" by (cases a rule: href_of.cases) auto
      with t a Inl show ?thesis by (simp add: summary_def linked_def post_info_of_def)
    next
      case (Inr h)
      with t a show ?thesis by (simp add: summary_def linked_def post_info_of_def Let_def)
    qed
  qed
qed

lemma posts_loop_step_skip:
  assumes "summary (alnum E) d = None"
  shows "\<exists>w1. posts_loop E S (d # ds) acc w = posts_loop E S ds acc w1"
  using assms
  by (auto simp: summary_def extract_post_info_def split: sum.splits)

lemma posts_loop_step_take:
  assumes "summary (alnum E) d = Some info"
  shows "\<exists>c w2. posts_loop E S (d # ds) acc w = posts_loop E S ds (acc @ [info @ [(''content'', c)]]) w2"
proof -
  from assms have p: "post_info_of (alnum E) d = Inr (Some info)"
    by (auto simp: summary_def split: sum.splits)
  then obtain t l a dt where i: "info = [(''title'', t), (''link'', l), (''author'', a), (''date'', dt)]"
    using post_info_of_shape by blast
  obtain c w2 where g: "get_post_content E S l w = (c, w2)"
    by (cases "get_post_content E S l w")
  have "posts_loop E S (d # ds) acc w = posts_loop E S ds (acc @ [info @ [(''content'', c)]]) w2"
    using p g by (simp add: extract_post_info_def i)
  then show ?thesis by blast
qed

lemma posts_loop_result:
  "\<exists>cs. length cs = length (List.map_filter (summary (alnum E)) ds) \<and>
     fst (posts_loop E S ds acc w) =
       acc @ map (\<lambda>(info, c). info @ [(''content'', c)])
               (zip (List.map_filter (summary (alnum E)) ds) cs)"
proof (induction ds arbitrary: acc w)
  case Nil
  show ?case by (simp add: map_filter_simps)
next
  case (Cons d ds)
  show ?case
  proof (cases "summary (alnum E) d")
    case None
    then obtain w1 where "posts_loop E S (d # ds) acc w = posts_loop E S ds acc w1"
      using posts_loop_step_skip by blast
    with Cons.IH [of acc w1] None show ?thesis by (simp add: map_filter_simps)
  next
    case (Some info)
    then obtain c w2 where
      s: "posts_loop E S (d # ds) acc w = posts_loop E S ds (acc @ [info @ [(''content'', c)]]) w2"
      using posts_loop_step_take by blast
    from Cons.IH [of "acc @ [info @ [(''content'', c)]]" w2]
    obtain cs where l: "length cs = length (List.map_filter (summary (alnum E)) ds)"
      and r: "fst (posts_loop E S ds (acc @ [info @ [(''content'', c)]]) w2) =
        (acc @ [info @ [(''content'', c)]]) @ map (\<lambda>(info, c). info @ [(''content'', c)])
               (zip (List.map_filter (summary (alnum E)) ds) cs)"
      by blast
    have "length (c # cs) = length (List.map_filter (summary (alnum E)) (d # ds))"
      using l Some by (simp add: map_filter_simps)
    moreover have "fst (posts_loop E S (d # ds) acc w) =
       acc @ map (\<lambda>(info, c). info @ [(''content'', c)])
               (zip (List.map_filter (summary (alnum E)) (d # ds)) (c # cs))"
      using s r Some by (simp add: map_filter_simps)
    ultimately show ?thesis by blast
  qed
qed

lemma summary_shape:
  assumes "info \<in> set (List.map_filter (summary an) ds)"
  shows "\<exists>t l a dt. info = [(''title'', t), (''link'', l), (''author'', a), (''date'', dt)]"
proof -
  from assms obtain d where "summary an d = Some info"
    by (auto simp: map_filter_def)
  then have "post_info_of an d = Inr (Some info)"
    by (auto simp: summary_def split: sum.splits)
  then show ?thesis by (rule post_info_of_shape)
qed

lemma posts_loop_fields:
  assumes "p \<in> set (fst (posts_loop E S ds [] w))"
  shows "map fst p = fields"
proof -
  obtain cs where
    "fst (posts_loop E S ds [] w) =
       map (\<lambda>(info, c). info @ [(''content'', c)]) (zip (List.map_filter (summary (alnum E)) ds) cs)"
    using posts_loop_result [of E ds S "[]" w] by auto
  with assms obtain info c where p: "p = info @ [(''content'', c)]"
    and "(info, c) \<in> set (zip (List.map_filter (summary (alnum E)) ds) cs)"
    by auto
  then have "info \<in> set (List.map_filter (summary (alnum E)) ds)"
    by (auto dest: set_zip_leftD)
  then obtain t l a dt where "info = [(''title'', t), (''link'', l), (''author'', a), (''date'', dt)]"
    using summary_shape by blast
  with p show ?thesis by (simp add: fields_def)
qed

lemma posts_loop_without_content:
  "map without_content (fst (posts_loop E S ds [] w)) = List.map_filter (summary (alnum E)) ds"
proof -
  obtain cs where l: "length cs = length (List.map_filter (summary (alnum E)) ds)" and
    r: "fst (posts_loop E S ds [] w) =
       map (\<lambda>(info, c). info @ [(''content'', c)]) (zip (List.map_filter (summary (alnum E)) ds) cs)"
    using posts_loop_result [of E ds S "[]" w] by auto
  have "map without_content (map (\<lambda>(info, c). info @ [(''content'', c)]) (zip xs cs)) = xs"
    if "length cs = length xs" and "\<forall>i \<in> set xs. without_content i = i" for xs :: "post list"
    using that
  proof (induction xs arbitrary: cs)
    case Nil
    then show ?case by simp
  next
    case (Cons x xs)
    then obtain c cs' where "cs = c # cs'" by (cases cs) auto
    with Cons show ?case by (simp add: without_content_def)
  qed
  moreover have "\<forall>i \<in> set (List.map_filter (summary (alnum E)) ds). without_content i = i"
  proof
    fix i assume "i \<in> set (List.map_filter (summary (alnum E)) ds)"
    then obtain t l a dt where "i = [(''title'', t), (''link'', l), (''author'', a), (''date'', dt)]"
      using summary_shape by blast
    then show "without_content i = i" by (simp add: without_content_def)
  qed
  ultimately show ?thesis using l r by simp
qed

lemma length_map_filter_summary:
  "length (List.map_filter (summary an) ds) = length ds - length (filter unlinked ds)"
proof -
  have "(\<lambda>d. summary an d \<noteq> None) = linked"
    by (rule ext) (rule summary_linked)
  then have "length (List.map_filter (summary an) ds) = length (filter linked ds)"
    unfolding map_filter_def by simp
  moreover have "length (filter linked ds) + length (filter unlinked ds) = length ds"
    using sum_length_filter_compl [of linked ds] by (simp add: unlinked_def [abs_def])
  ultimately show ?thesis by simp
qed


lemma length_slice_to: "0 \<le> n \<Longrightarrow> length (slice_to xs n) = min (nat n) (length xs)"
  by (simp add: slice_to_def min.commute)

lemma list_posts_parsed:
  assumes "fst (make_request E S url w) = Inr (Some r)" and "parse E (resp_text r) = Some soup"
  shows "\<exists>w1. get_ptt_stock_posts E S url n w =
           posts_loop E S (slice_to (find_all post_entry soup) n) [] w1"
proof -
  obtain res w1 where m: "make_request E S url w = (res, w1)"
    by (cases "make_request E S url w")
  with assms(1) have res: "res = Inr (Some r)" by simp
  have "ok r" using assms(1) by (rule make_request_ok)
  then have "get_ptt_stock_posts E S url n w =
           posts_loop E S (slice_to (find_all post_entry soup) n) [] w1"
    using m res assms(2) by (simp add: get_ptt_stock_posts_def)
  then show ?thesis by blast
qed

lemma list_posts_shape:
  "fst (get_ptt_stock_posts E S url n w) = [] \<or>
   (\<exists>soup w1. get_ptt_stock_posts E S url n w =
           posts_loop E S (slice_to (find_all post_entry soup) n) [] w1)"
  by (auto simp: get_ptt_stock_posts_def split: prod.splits sum.splits option.splits)

text \<open>
  Why the facts about sleeping ask for a delay that \<^verbatim>\<open>time.sleep\<close> accepts: with a
  delay of -10 seconds the sleep after the first failure raises a \<open>ValueError\<close> from
  inside the handler, and the fetcher is left with one request made and no result.
\<close>

lemma make_request_negative_delay:
  "make_request down_site hasty_scraper stock_index fresh =
     (Inl ValueError,
      \<lparr>requests_made = 1, draws_made = 1, events = [Get stock_index, Warning 1 3]\<rparr>)"
  by (simp add: fetch_defs site_defs)

section \<open>The claims about the sanitizer\<close>

text \<open>
  C8. Every character of the sanitizer's output is in the allow-list: a word character,
  whitespace, a character of the range U+4E00 to U+9FFF, or one of the eight punctuation
  marks. So no emoji or symbol of the input that is outside the list reaches the output.
\<close>

theorem clean_text_allow_list:
  "\<forall>c \<in> set (clean_text an t). isword an c \<or> isspace c \<or> iscjk c \<or> ispunct c"
  using clean_text_allowed [of _ an t] by (auto simp: allowed_def)

theorem clean_text_allow_list_witness:
  "clean_text ascii_alnum (lit ''a#b!'') = lit ''ab!'' \<and>
   0x21 \<in> set (clean_text ascii_alnum (lit ''a#b!'')) \<and>
   (isword ascii_alnum 0x21 \<or> isspace 0x21 \<or> iscjk 0x21 \<or> ispunct 0x21)"
proof -
  have e: "clean_text ascii_alnum (lit ''a#b!'') = lit ''ab!''"
    by (simp add: sanitizer_defs)
  then have m: "0x21 \<in> set (clean_text ascii_alnum (lit ''a#b!''))"
    by (simp add: lit_def)
  from clean_text_allow_list [of ascii_alnum "lit ''a#b!''", THEN bspec, OF m] e m
  show ?thesis by blast
qed

text \<open>
  C7. The output of the sanitizer is to hold no run of two or more whitespace characters.
  The code collapses the runs before it deletes the special characters, so a deleted
  character that stood between two spaces leaves them side by side: on \<open>x # y\<close> the
  output is \<open>x\<close>, two spaces, \<open>y\<close>. (What does hold is \<open>clean_text_spaces\<close> and
  \<open>clean_text_edges\<close> above: the only whitespace left is the ASCII space, and none of it
  is at either end.)
\<close>

theorem clean_text_double_space:
  "clean_text ascii_alnum (lit ''x # y'') = [0x78, 0x20, 0x20, 0x79]"
  by (simp add: sanitizer_defs)

text \<open>
  C2. The sanitizer is to be idempotent. On \<open>a @ b\<close> it is not: the first pass leaves two
  adjacent spaces, which the second pass collapses into one. (By \<open>clean_text_again\<close>
  that is all a second pass can change, and by \<open>clean_text_stable\<close> a third pass
  changes nothing.)
\<close>

theorem clean_text_not_idempotent:
  "clean_text ascii_alnum (lit ''a @ b'') = lit ''a  b'' \<and>
   clean_text ascii_alnum (clean_text ascii_alnum (lit ''a @ b'')) = lit ''a b'' \<and>
   clean_text ascii_alnum (clean_text ascii_alnum (lit ''a @ b'')) \<noteq>
     clean_text ascii_alnum (lit ''a @ b'')"
  by (simp add: sanitizer_defs)

section \<open>The claims about the fetcher\<close>

text \<open>
  C4, as the claim has it: an attempt succeeds when it answers with a 2xx status. The
  code's test is \<^verbatim>\<open>raise_for_status\<close>, which lets every status outside 400 to 599
  pass: a site that answers 304 and then 200 gets one request, and the 304 response is
  what the fetcher returns, not the response of the first 2xx attempt.
\<close>

theorem make_request_2xx_counterexample:
  "\<not> succeeds_2xx (http_get stale_site 0 stock_index) \<and>
   succeeds_2xx (http_get stale_site 1 stock_index) \<and>
   http_get stale_site 1 stock_index = Responds (page 200 (lit ''post'')) \<and>
   make_request stale_site default_scraper stock_index fresh =
     (Inr (Some (page 304 [])),
      \<lparr>requests_made = 1, draws_made = 0, events = [Get stock_index]\<rparr>)"
  by (simp add: fetch_defs site_defs)

text \<open>
  C4, amended: an attempt fails when the GET raises a \<open>RequestException\<close> (a timeout is
  one) or answers with a status from 400 to 599, and succeeds when it answers with any
  other status. The fetcher makes at most \<open>max_retries\<close> requests. With a delay that
  \<^verbatim>\<open>time.sleep\<close> accepts: if the attempts before attempt \<open>i\<close> fail and attempt \<open>i\<close>
  succeeds, the fetcher returns that response after \<open>i + 1\<close> requests, having slept
  \<open>retry_delay + uniform(1, 3)\<close> after each of the \<open>i\<close> failures; if all \<open>max_retries\<close>
  attempts fail it returns \<open>None\<close>, having slept after each failure but the last.
\<close>

theorem make_request_retries:
  "requests_made (snd (make_request E S url w)) \<le> requests_made w + nat (max_retries S) \<and>
   (\<forall>i r. accepts_delay E S \<and> i < nat (max_retries S) \<and> (\<forall>j<i. fails E url w j) \<and>
          try_get E (requests_made w + i) url = Inr r \<longrightarrow>
      fst (make_request E S url w) = Inr (Some r) \<and>
      requests_made (snd (make_request E S url w)) = requests_made w + i + 1 \<and>
      draws_made (snd (make_request E S url w)) = draws_made w + i \<and>
      events (snd (make_request E S url w)) =
        events w @ concat (map (failed_attempt S url (draws_made w)) [0..<i]) @ [Get url]) \<and>
   (accepts_delay E S \<and> (\<forall>j < nat (max_retries S). fails E url w j) \<longrightarrow>
      fst (make_request E S url w) = Inr None \<and>
      requests_made (snd (make_request E S url w)) = requests_made w + nat (max_retries S) \<and>
      draws_made (snd (make_request E S url w)) = draws_made w + nat (max_retries S - 1) \<and>
      events (snd (make_request E S url w)) =
        events w @ concat (map (failed_attempt S url (draws_made w)) [0..<nat (max_retries S)]))"
proof (intro conjI allI impI)
  show "requests_made (snd (make_request E S url w)) \<le> requests_made w + nat (max_retries S)"
    using request_loop_bound [of E S url "py_range (max_retries S)" w]
    by (simp add: make_request_def py_range_def)
next
  fix i r
  assume a: "accepts_delay E S \<and> i < nat (max_retries S) \<and> (\<forall>j<i. fails E url w j) \<and>
          try_get E (requests_made w + i) url = Inr r"
  then have m: "make_request E S url w =
     (Inr (Some r), emit [Get url] ((after_failed S url w i)\<lparr>requests_made := Suc (requests_made w + i)\<rparr>))"
    by (intro make_request_first_success) auto
  from a have "i \<le> nat (max_retries S - 1)" by arith
  then have mn: "min i (nat (max_retries S - 1)) = i" by simp
  show "fst (make_request E S url w) = Inr (Some r)" by (simp add: m)
  show "requests_made (snd (make_request E S url w)) = requests_made w + i + 1"
    by (simp add: m emit_def)
  show "draws_made (snd (make_request E S url w)) = draws_made w + i"
    by (simp add: m emit_def after_failed_def mn)
  show "events (snd (make_request E S url w)) =
        events w @ concat (map (failed_attempt S url (draws_made w)) [0..<i]) @ [Get url]"
    by (simp add: m emit_def after_failed_def)
next
  assume a: "accepts_delay E S \<and> (\<forall>j < nat (max_retries S). fails E url w j)"
  then have m: "make_request E S url w = (Inr None, after_failed S url w (nat (max_retries S)))"
    by (intro make_request_all_failed) auto
  have mn: "min (nat (max_retries S)) (nat (max_retries S - 1)) = nat (max_retries S - 1)"
    by simp
  show "fst (make_request E S url w) = Inr None" by (simp add: m)
  show "requests_made (snd (make_request E S url w)) = requests_made w + nat (max_retries S)"
    by (simp add: m after_failed_def)
  show "draws_made (snd (make_request E S url w)) = draws_made w + nat (max_retries S - 1)"
    by (simp add: m after_failed_def mn)
  show "events (snd (make_request E S url w)) =
        events w @ concat (map (failed_attempt S url (draws_made w)) [0..<nat (max_retries S)])"
    by (simp add: m after_failed_def)
qed

theorem make_request_retries_witness:
  "accepts_delay flaky_site default_scraper \<and>
   fails flaky_site stock_index fresh 0 \<and> fails flaky_site stock_index fresh 1 \<and>
   fst (make_request flaky_site default_scraper stock_index fresh) =
     Inr (Some (page 200 (lit ''post''))) \<and>
   requests_made (snd (make_request flaky_site default_scraper stock_index fresh)) = 3 \<and>
   draws_made (snd (make_request flaky_site default_scraper stock_index fresh)) = 2 \<and>
   events (snd (make_request flaky_site default_scraper stock_index fresh)) =
     [Get stock_index, Warning 1 3, Sleep 5 0, Get stock_index, Warning 2 3, Sleep 5 1,
      Get stock_index] \<and>
   accepts_delay down_site default_scraper \<and>
   fails down_site stock_index fresh 0 \<and> fails down_site stock_index fresh 1 \<and>
   fails down_site stock_index fresh 2 \<and>
   fst (make_request down_site default_scraper stock_index fresh) = Inr None \<and>
   requests_made (snd (make_request down_site default_scraper stock_index fresh)) = 3 \<and>
   draws_made (snd (make_request down_site default_scraper stock_index fresh)) = 2 \<and>
   events (snd (make_request down_site default_scraper stock_index fresh)) =
     [Get stock_index, Warning 1 3, Sleep 5 0, Get stock_index, Warning 2 3, Sleep 5 1,
      Get stock_index, Warning 3 3]"
proof -
  have n: "nat (max_retries default_scraper) = 3" "nat (max_retries default_scraper - 1) = 2"
    "max_retries default_scraper = 3" "retry_delay default_scraper = 5"
    by (simp_all add: default_scraper_def)
  have acc: "accepts_delay flaky_site default_scraper" "accepts_delay down_site default_scraper"
    by (simp_all add: accepts_delay_def site_defs)
  have f01: "fails flaky_site stock_index fresh 0" "fails flaky_site stock_index fresh 1"
    by (simp_all add: fails_def try_get_def flaky_site_def flaky_get_def fresh_def page_def ok_def)
  have f: "\<forall>j<2. fails flaky_site stock_index fresh j"
  proof (intro allI impI)
    fix j :: nat assume "j < 2"
    then have "j = 0 \<or> j = 1" by auto
    then show "fails flaky_site stock_index fresh j" using f01 by auto
  qed
  have s: "try_get flaky_site (requests_made fresh + 2) stock_index = Inr (page 200 (lit ''post''))"
    by (simp add: try_get_def flaky_site_def flaky_get_def fresh_def page_def ok_def)
  have dj: "fails down_site stock_index fresh j" for j
    by (simp add: fails_def try_get_def down_site_def down_get_def page_def ok_def)
  then have d: "\<forall>j<nat (max_retries default_scraper). fails down_site stock_index fresh j"
    by simp
  have u: "[0..<2] = [0, 1]" "[0..<3] = [0, 1, 2]"
    by (simp_all add: upt_rec)
  have w: "requests_made fresh = 0" "draws_made fresh = 0" "events fresh = []"
    by (simp_all add: fresh_def)
  note succ = make_request_retries [of flaky_site default_scraper stock_index fresh,
      THEN conjunct2, THEN conjunct1, rule_format, of 2 "page 200 (lit ''post'')"]
  note fail = make_request_retries [of down_site default_scraper stock_index fresh,
      THEN conjunct2, THEN conjunct2, rule_format]
  from succ acc(1) f s
  have "fst (make_request flaky_site default_scraper stock_index fresh) =
     Inr (Some (page 200 (lit ''post''))) \<and>
   requests_made (snd (make_request flaky_site default_scraper stock_index fresh)) = 3 \<and>
   draws_made (snd (make_request flaky_site default_scraper stock_index fresh)) = 2 \<and>
   events (snd (make_request flaky_site default_scraper stock_index fresh)) =
     [Get stock_index, Warning 1 3, Sleep 5 0, Get stock_index, Warning 2 3, Sleep 5 1,
      Get stock_index]"
    by (simp add: n u w failed_attempt_def)
  moreover from fail acc(2) d
  have "fst (make_request down_site default_scraper stock_index fresh) = Inr None \<and>
   requests_made (snd (make_request down_site default_scraper stock_index fresh)) = 3 \<and>
   draws_made (snd (make_request down_site default_scraper stock_index fresh)) = 2 \<and>
   events (snd (make_request down_site default_scraper stock_index fresh)) =
     [Get stock_index, Warning 1 3, Sleep 5 0, Get stock_index, Warning 2 3, Sleep 5 1,
      Get stock_index, Warning 3 3]"
    by (simp add: n u w failed_attempt_def)
  ultimately show ?thesis using acc f01 dj by simp
qed

text \<open>
  C10. With \<open>max_retries = 0\<close> the fetcher returns \<open>None\<close> and leaves the world as it
  was: no request, no sleep, no log line.
\<close>

theorem make_request_no_retries:
  "max_retries S = 0 \<Longrightarrow> make_request E S url w = (Inr None, w)"
  by (simp add: make_request_def py_range_def)

theorem make_request_no_retries_witness:
  "max_retries idle_scraper = 0 \<and>
   make_request sample_site idle_scraper stock_index fresh = (Inr None, fresh)"
proof -
  have "max_retries idle_scraper = 0" by (simp add: idle_scraper_def)
  then show ?thesis
    using make_request_no_retries [of idle_scraper sample_site stock_index fresh] by simp
qed

section \<open>The claims about the content extractor\<close>

text \<open>
  C5. The content extractor always returns a string, and which one is decided by four
  cases: the "content unavailable" placeholder when the fetcher returns \<open>None\<close>, the
  "error" placeholder when the fetcher or the parser raises, the "container not found"
  placeholder when the page has no element with the id \<open>main-content\<close>, and otherwise the
  sanitized text of that container.
\<close>

theorem get_post_content_total:
  "fst (get_post_content E S url w) =
     (case fst (make_request E S url w) of
        Inl e \<Rightarrow> content_error
      | Inr None \<Rightarrow> content_unavailable
      | Inr (Some r) \<Rightarrow>
          (case parse E (resp_text r) of
             None \<Rightarrow> content_error
           | Some soup \<Rightarrow>
               (case find_tag (with_id ''main-content'') soup of
                  None \<Rightarrow> content_not_found
                | Some content_div \<Rightarrow> clean_text (alnum E) (container_text content_div))))"
  by (rule get_post_content_cases)

theorem get_post_content_total_witness:
  "fst (get_post_content sample_site default_scraper (lit ''x'') fresh) = lit ''Up 3 !'' \<and>
   fst (get_post_content sample_site default_scraper stock_index fresh) = content_not_found \<and>
   fst (get_post_content down_site default_scraper (lit ''x'') fresh) = content_unavailable"
proof -
  have "fst (get_post_content sample_site default_scraper (lit ''x'') fresh) = lit ''Up 3 !''"
    using get_post_content_total [of sample_site default_scraper "lit ''x''" fresh]
    by (simp add: fetch_defs site_defs markup_defs sanitizer_defs)
  moreover
  have "fst (get_post_content sample_site default_scraper stock_index fresh) = content_not_found"
    using get_post_content_total [of sample_site default_scraper stock_index fresh]
    by (simp add: fetch_defs site_defs markup_defs)
  moreover
  have "fst (get_post_content down_site default_scraper (lit ''x'') fresh) = content_unavailable"
    using get_post_content_total [of down_site default_scraper "lit ''x''" fresh]
    by (simp add: fetch_defs site_defs)
  ultimately show ?thesis by simp
qed

text \<open>
  C9. When the fetch succeeds and the container is found, the content can be the empty
  string: it is whenever every character of the container's text, once the nested
  \<open>div\<close> and \<open>span\<close> elements are gone, is whitespace or outside the allow-list (in
  particular when there is no text at all). The three placeholders are not empty.
\<close>

theorem get_post_content_empty:
  assumes "fst (make_request E S url w) = Inr (Some r)"
    and "parse E (resp_text r) = Some soup"
    and "find_tag (with_id ''main-content'') soup = Some content_div"
    and "\<forall>c \<in> set (node_text (decompose_wrappers content_div)). \<not> allowed (alnum E) c \<or> isspace c"
  shows "fst (get_post_content E S url w) = [] \<and>
         content_unavailable \<noteq> [] \<and> content_not_found \<noteq> [] \<and> content_error \<noteq> []"
proof -
  have "\<forall>c \<in> set (container_text content_div). \<not> allowed (alnum E) c \<or> isspace c"
    using assms(4) set_strip [of "node_text (decompose_wrappers content_div)"]
    by (auto simp: container_text_def)
  then have "clean_text (alnum E) (container_text content_div) = []"
    by (rule clean_text_empty)
  then have "fst (get_post_content E S url w) = []"
    using assms(1-3) by (simp add: get_post_content_cases)
  then show ?thesis
    by (simp add: content_unavailable_def content_not_found_def content_error_def)
qed

theorem get_post_content_empty_witness:
  "fst (make_request symbols_site default_scraper stock_index fresh) =
     Inr (Some (page 200 (lit ''symbols''))) \<and>
   parse symbols_site (resp_text (page 200 (lit ''symbols''))) = Some symbols_post \<and>
   find_tag (with_id ''main-content'') symbols_post = Some symbols_container \<and>
   node_text (decompose_wrappers symbols_container) = lit '' ~~ '' @ [0x0A] \<and>
   fst (get_post_content symbols_site default_scraper stock_index fresh) = []"
proof -
  have a: "fst (make_request symbols_site default_scraper stock_index fresh) =
     Inr (Some (page 200 (lit ''symbols'')))"
    by (simp add: fetch_defs site_defs)
  have b: "parse symbols_site (resp_text (page 200 (lit ''symbols''))) = Some symbols_post"
    by (simp add: site_defs lit_def)
  have c: "find_tag (with_id ''main-content'') symbols_post = Some symbols_container"
    by (simp add: markup_defs)
  have d: "node_text (decompose_wrappers symbols_container) = lit '' ~~ '' @ [0x0A]"
    by (simp add: markup_defs)
  have e: "\<forall>c \<in> set (node_text (decompose_wrappers symbols_container)).
             \<not> allowed (alnum symbols_site) c \<or> isspace c"
    unfolding d by (simp add: site_defs sanitizer_defs)
  from get_post_content_empty [OF a b c e] a b c d show ?thesis by simp
qed

section \<open>The claims about the post list\<close>

text \<open>
  C6. If the fetcher returns \<open>None\<close> for the listing, the post list is empty; and it is
  empty whenever every one of the \<open>max_retries\<close> attempts to fetch the listing fails.
  Nothing is raised: the result is a list in every case.
\<close>

theorem list_posts_fetch_failed:
  "(fst (make_request E S url w) = Inr None \<longrightarrow> fst (get_ptt_stock_posts E S url n w) = []) \<and>
   ((\<forall>j < nat (max_retries S). fails E url w j) \<longrightarrow>
      fst (get_ptt_stock_posts E S url n w) = [])"
proof (intro conjI impI)
  assume "fst (make_request E S url w) = Inr None"
  then show "fst (get_ptt_stock_posts E S url n w) = []"
    by (cases "make_request E S url w") (simp add: get_ptt_stock_posts_def)
next
  assume "\<forall>j < nat (max_retries S). fails E url w j"
  then have "\<forall>r. fst (make_request E S url w) \<noteq> Inr (Some r)"
    using make_request_some_failed by blast
  then show "fst (get_ptt_stock_posts E S url n w) = []"
    by (auto simp: get_ptt_stock_posts_def split: prod.splits sum.splits option.splits)
qed

theorem list_posts_fetch_failed_witness:
  "nat (max_retries default_scraper) = 3 \<and>
   fails down_site stock_index fresh 0 \<and> fails down_site stock_index fresh 1 \<and>
   fails down_site stock_index fresh 2 \<and>
   fst (make_request down_site default_scraper stock_index fresh) = Inr None \<and>
   fst (get_ptt_stock_posts down_site default_scraper stock_index 5 fresh) = []"
proof -
  have f: "fails down_site stock_index fresh j" for j
    by (simp add: fails_def try_get_def down_site_def down_get_def page_def ok_def)
  then have d: "\<forall>j < nat (max_retries default_scraper). fails down_site stock_index fresh j"
    by simp
  have n: "nat (max_retries default_scraper) = 3"
    by (simp add: default_scraper_def)
  have m: "fst (make_request down_site default_scraper stock_index fresh) = Inr None"
    by (simp add: fetch_defs site_defs)
  note t = list_posts_fetch_failed [of down_site default_scraper stock_index fresh 5]
  from t [THEN conjunct1, THEN mp, OF m] t [THEN conjunct2, THEN mp, OF d] f n m
  show ?thesis by simp
qed

text \<open>
  C1. For every count that is not negative, the post list has at most count entries, and
  every entry has exactly the five fields title, link, author, date and content, each
  holding a string.
\<close>

theorem list_posts_bounded_and_complete:
  assumes "0 \<le> n"
  shows "length (fst (get_ptt_stock_posts E S url n w)) \<le> nat n \<and>
     (\<forall>p \<in> set (fst (get_ptt_stock_posts E S url n w)).
        map fst p = fields \<and> (\<forall>k \<in> set fields. \<exists>v. map_of p k = Some v))"
proof -
  consider (empty) "fst (get_ptt_stock_posts E S url n w) = []"
    | (loop) soup w1 where "get_ptt_stock_posts E S url n w =
           posts_loop E S (slice_to (find_all post_entry soup) n) [] w1"
    using list_posts_shape by blast
  then show ?thesis
  proof cases
    case empty
    then show ?thesis by simp
  next
    case loop
    define ds where "ds = slice_to (find_all post_entry soup) n"
    have "length (fst (posts_loop E S ds [] w1)) = length (map without_content (fst (posts_loop E S ds [] w1)))"
      by simp
    also have "\<dots> = length (List.map_filter (summary (alnum E)) ds)"
      by (simp only: posts_loop_without_content)
    also have "\<dots> \<le> length ds"
      by (simp add: length_map_filter_summary)
    also have "\<dots> \<le> nat n"
      using assms by (simp add: ds_def length_slice_to)
    finally have len: "length (fst (posts_loop E S ds [] w1)) \<le> nat n" .
    have "map fst p = fields \<and> (\<forall>k \<in> set fields. \<exists>v. map_of p k = Some v)"
      if "p \<in> set (fst (posts_loop E S ds [] w1))" for p
    proof -
      from that have f: "map fst p = fields" by (rule posts_loop_fields)
      have "\<exists>v. map_of p k = Some v" if "k \<in> set fields" for k
      proof -
        from that f have "k \<in> fst ` set p" by (metis list.set_map)
        then show ?thesis by (metis map_of_eq_None_iff not_None_eq)
      qed
      with f show ?thesis by blast
    qed
    with len show ?thesis by (simp add: loop ds_def)
  qed
qed

theorem list_posts_bounded_and_complete_witness:
  "(0::int) \<le> 2 \<and>
   fst (get_ptt_stock_posts sample_site default_scraper stock_index 2 fresh) =
     [[(''title'', lit ''News Up''), (''link'', lit ''https://www.ptt.cc/M.1.html''),
       (''author'', lit ''amy''), (''date'', lit ''501''), (''content'', lit ''Up 3 !'')]] \<and>
   length (fst (get_ptt_stock_posts sample_site default_scraper stock_index 2 fresh)) \<le> nat 2 \<and>
   map fst (hd (fst (get_ptt_stock_posts sample_site default_scraper stock_index 2 fresh))) =
     fields"
proof -
  have z: "(0::int) \<le> 2" by simp
  have e: "fst (get_ptt_stock_posts sample_site default_scraper stock_index 2 fresh) =
     [[(''title'', lit ''News Up''), (''link'', lit ''https://www.ptt.cc/M.1.html''),
       (''author'', lit ''amy''), (''date'', lit ''501''), (''content'', lit ''Up 3 !'')]]"
    by (simp add: get_ptt_stock_posts_def get_post_content_def post_content_of_def
          fetch_defs site_defs markup_defs slice_to_def
          extract_post_info_def post_info_of_def sanitizer_defs Let_def na_def base_origin_def)
  then have h: "hd (fst (get_ptt_stock_posts sample_site default_scraper stock_index 2 fresh))
      \<in> set (fst (get_ptt_stock_posts sample_site default_scraper stock_index 2 fresh))"
    by simp
  note t = list_posts_bounded_and_complete [OF z, of sample_site default_scraper stock_index fresh]
  from t have "length (fst (get_ptt_stock_posts sample_site default_scraper stock_index 2 fresh))
      \<le> nat 2"
    by (rule conjunct1)
  moreover from t [THEN conjunct2, THEN bspec, OF h]
  have "map fst (hd (fst (get_ptt_stock_posts sample_site default_scraper stock_index 2 fresh))) =
     fields"
    by (rule conjunct1)
  ultimately show ?thesis using z e by blast
qed

text \<open>
  C3, as the claim has it: of \<open>N\<close> containers of which \<open>K\<close> lack a title with a link, the
  post list has \<open>min(count, N - K)\<close> entries. The code cuts the list of containers to the
  first \<open>count\<close> before it skips any: on a listing of two containers whose first one lacks
  its link, a count of 1 gives no entry, not one.
\<close>

theorem list_posts_count_counterexample:
  "fst (make_request sample_site default_scraper stock_index fresh) =
     Inr (Some (page 200 (lit ''listing''))) \<and>
   parse sample_site (resp_text (page 200 (lit ''listing''))) = Some sample_listing \<and>
   length (find_all post_entry sample_listing) = 2 \<and>
   length (filter lacks_title (find_all post_entry sample_listing)) = 1 \<and>
   fst (get_ptt_stock_posts sample_site default_scraper stock_index 1 fresh) = [] \<and>
   length (fst (get_ptt_stock_posts sample_site default_scraper stock_index 1 fresh)) \<noteq>
     min (nat 1) (length (find_all post_entry sample_listing) -
                  length (filter lacks_title (find_all post_entry sample_listing)))"
  by (simp add: get_ptt_stock_posts_def fetch_defs site_defs markup_defs slice_to_def
        extract_post_info_def post_info_of_def lacks_title_def has_title_def lit_def)

text \<open>
  C3, amended: the post list is made from the first \<open>count\<close> containers of the listing
  (\<^verbatim>\<open>[:count]\<close>), in document order, leaving out those among them that have no title
  element with a link carrying an \<open>href\<close>: apart from the content, the entries are the
  summaries of the remaining containers, in order. For a count that is not negative there
  are \<open>min(count, N) - K'\<close> of them, where \<open>K'\<close> counts the containers left out among the
  first \<open>count\<close>.
\<close>

theorem list_posts_slice_then_skip:
  assumes "fst (make_request E S url w) = Inr (Some r)" and "parse E (resp_text r) = Some soup"
  shows "map without_content (fst (get_ptt_stock_posts E S url n w)) =
           List.map_filter (summary (alnum E)) (slice_to (find_all post_entry soup) n) \<and>
         length (fst (get_ptt_stock_posts E S url n w)) =
           length (slice_to (find_all post_entry soup) n) -
           length (filter unlinked (slice_to (find_all post_entry soup) n)) \<and>
         (0 \<le> n \<longrightarrow> length (fst (get_ptt_stock_posts E S url n w)) =
           min (nat n) (length (find_all post_entry soup)) -
           length (filter unlinked (take (nat n) (find_all post_entry soup))))"
proof -
  obtain w1 where g: "get_ptt_stock_posts E S url n w =
           posts_loop E S (slice_to (find_all post_entry soup) n) [] w1"
    using list_posts_parsed [OF assms] by blast
  have a: "map without_content (fst (get_ptt_stock_posts E S url n w)) =
           List.map_filter (summary (alnum E)) (slice_to (find_all post_entry soup) n)"
    by (simp only: g posts_loop_without_content)
  have "length (fst (get_ptt_stock_posts E S url n w)) =
        length (map without_content (fst (get_ptt_stock_posts E S url n w)))"
    by simp
  also have "\<dots> = length (slice_to (find_all post_entry soup) n) -
           length (filter unlinked (slice_to (find_all post_entry soup) n))"
    by (simp only: a length_map_filter_summary)
  finally have b: "length (fst (get_ptt_stock_posts E S url n w)) =
           length (slice_to (find_all post_entry soup) n) -
           length (filter unlinked (slice_to (find_all post_entry soup) n))" .
  have c: "0 \<le> n \<longrightarrow> length (fst (get_ptt_stock_posts E S url n w)) =
           min (nat n) (length (find_all post_entry soup)) -
           length (filter unlinked (take (nat n) (find_all post_entry soup)))"
    using b by (simp add: slice_to_def min.commute)
  from a b c show ?thesis by blast
qed

theorem list_posts_slice_then_skip_witness:
  "fst (make_request sample_site default_scraper stock_index fresh) =
     Inr (Some (page 200 (lit ''listing''))) \<and>
   parse sample_site (resp_text (page 200 (lit ''listing''))) = Some sample_listing \<and>
   (0::int) \<le> 2 \<and>
   map without_content (fst (get_ptt_stock_posts sample_site default_scraper stock_index 2 fresh)) =
     [[(''title'', lit ''News Up''), (''link'', lit ''https://www.ptt.cc/M.1.html''),
       (''author'', lit ''amy''), (''date'', lit ''501'')]] \<and>
   length (fst (get_ptt_stock_posts sample_site default_scraper stock_index 2 fresh)) = 1"
proof -
  have a: "fst (make_request sample_site default_scraper stock_index fresh) =
     Inr (Some (page 200 (lit ''listing'')))"
    by (simp add: fetch_defs site_defs)
  have b: "parse sample_site (resp_text (page 200 (lit ''listing''))) = Some sample_listing"
    by (simp add: site_defs lit_def)
  have c: "slice_to (find_all post_entry sample_listing) 2 = find_all post_entry sample_listing"
    by (simp add: slice_to_def markup_defs)
  have d: "List.map_filter (summary (alnum sample_site)) (find_all post_entry sample_listing) =
     [[(''title'', lit ''News Up''), (''link'', lit ''https://www.ptt.cc/M.1.html''),
       (''author'', lit ''amy''), (''date'', lit ''501'')]]"
    by (simp add: map_filter_simps summary_def post_info_of_def markup_defs site_defs
          sanitizer_defs Let_def na_def base_origin_def)
  have e: "length (find_all post_entry sample_listing) = 2"
    "length (filter unlinked (find_all post_entry sample_listing)) = 1"
    by (simp_all add: markup_defs unlinked_def linked_def)
  from list_posts_slice_then_skip [OF a b, of 2] a b c d e show ?thesis by simp
qed

end
